theory Spec2Isabelle
  imports Complex_Main
begin

section \<open>Data model of the chord instrument\<close>

text \<open>
  The component keeps its state in module-level reactive variables. They are gathered in
  one record that every handler takes and returns. The tone engine is an external object:
  the calls made on it are appended, in order, to the field \<open>calls\<close>. The field
  \<open>synth\<close> tells whether the engine has been constructed (it is undefined until the
  component is mounted). The transposition is an integer. Angles and distances are
  double-precision numbers: they are modelled as the reals they denote, and every
  operation of the source that rounds its result is followed by the rounding to the nearest
  double. The chord keys are the seven values of the type \<open>KeyboardKeys\<close>, and the pressed
  set only ever receives such keys. The values of the envelope and waveform knobs are left
  out; the effect that applies them to the engine is modelled without them.
\<close>

datatype KeyboardKeys = KeyH | KeyU | KeyJ | KeyI | KeyK | KeyO | KeyL

datatype js_error = TypeError | NoMatchError

datatype call =
  TriggerAttack "string list" | TriggerRelease "string list" | ReleaseAll | SetOptions

record chord =
  frequencies :: "string list"
  cssClass :: string

record binding =
  name :: string
  semitones :: int

record state =
  synth :: bool
  lastKeyClicked :: "KeyboardKeys option"
  pressedKeys :: "KeyboardKeys set"
  modifierKeys :: "string set"
  previousTransposition :: int
  joystickActive :: bool
  transposition :: int
  calls :: "call list"



definition initialState :: state where
  "initialState = \<lparr>synth = False, lastKeyClicked = None, pressedKeys = {},
     modifierKeys = {}, previousTransposition = 0, joystickActive = False,
     transposition = 0, calls = []\<rparr>"

fun chords :: "KeyboardKeys \<Rightarrow> chord" where
  "chords KeyH = \<lparr>frequencies = [''C3'', ''E3'', ''G3''],
     cssClass = ''col-span-2 row-span-3 col-start-1 row-start-2''\<rparr>"
| "chords KeyU = \<lparr>frequencies = [''D3'', ''F3'', ''A3''],
     cssClass = ''col-span-3 col-start-1 row-start-1''\<rparr>"
| "chords KeyJ = \<lparr>frequencies = [''E3'', ''G3'', ''B3''],
     cssClass = ''col-span-2 row-span-3 col-start-3 row-start-2''\<rparr>"
| "chords KeyI = \<lparr>frequencies = [''F3'', ''A3'', ''C4''],
     cssClass = ''col-span-2 col-start-4 row-start-1''\<rparr>"
| "chords KeyK = \<lparr>frequencies = [''G3'', ''B3'', ''D4''],
     cssClass = ''col-span-2 row-span-3 col-start-5 row-start-2''\<rparr>"
| "chords KeyO = \<lparr>frequencies = [''A3'', ''C4'', ''E4''],
     cssClass = ''col-span-3 col-start-6 row-start-1''\<rparr>"
| "chords KeyL = \<lparr>frequencies = [''B3'', ''D4'', ''F4''],
     cssClass = ''col-span-2 row-span-3 col-start-7 row-start-2''\<rparr>"

text \<open>The binding table, as an association list in the order of its declaration.\<close>

definition transpositionMap :: "(nat \<times> binding) list" where
  "transpositionMap =
    [(90, \<lparr>name = ''maj/min'', semitones = 0\<rparr>),
     (45, \<lparr>name = ''7'', semitones = 2\<rparr>),
     (0, \<lparr>name = ''maj/min7'', semitones = 4\<rparr>),
     (315, \<lparr>name = ''maj/min9'', semitones = 7\<rparr>),
     (270, \<lparr>name = ''sus4'', semitones = 5\<rparr>),
     (225, \<lparr>name = ''sus2/maj6'', semitones = - 3\<rparr>),
     (180, \<lparr>name = ''dim'', semitones = - 6\<rparr>),
     (135, \<lparr>name = ''aug'', semitones = 3\<rparr>)]"

section \<open>Numbers as text\<close>

definition digitChar :: "nat \<Rightarrow> char" where
  "digitChar d = ''0123456789'' ! d"

fun showNat :: "nat \<Rightarrow> string" where
  "showNat n = (if n < 10 then [digitChar n] else showNat (n div 10) @ [digitChar (n mod 10)])"

declare showNat.simps [simp del]

text \<open>The text of an integer, as a template literal or \<open>toString\<close> gives it.\<close>

definition numberToString :: "int \<Rightarrow> string" where
  "numberToString i = (if i < 0 then ''-'' @ showNat (nat (- i)) else showNat (nat i))"

section \<open>The pitch arithmetic of the tone library\<close>

text \<open>
  Modelled from the spec: the pitch arithmetic \<open>Tone.Frequency(note).transpose(n).toNote()\<close>
  belongs to the external tone library, which is not part of the source. The spec says that
  a transposition applies the offset in semitones to each pitch. The model reads a pitch
  name (a letter, an optional sharp or flat, an octave number) as a count of semitones
  above C0, adds the offset, and spells the result with sharps, in exact arithmetic. A name
  that is no pitch name gives the text the library produces from a missing number; the
  program never passes one.
\<close>

definition scaleIndexToNote :: "string list" where
  "scaleIndexToNote =
    [''C'', ''C#'', ''D'', ''D#'', ''E'', ''F'', ''F#'', ''G'', ''G#'', ''A'', ''A#'', ''B'']"

definition toNote :: "int \<Rightarrow> string" where
  "toNote noteNumber =
     scaleIndexToNote ! nat (noteNumber mod 12) @ numberToString (noteNumber div 12)"

definition letterIndex :: "char \<Rightarrow> int option" where
  "letterIndex c =
    (if c = CHR ''C'' \<or> c = CHR ''c'' then Some 0
     else if c = CHR ''D'' \<or> c = CHR ''d'' then Some 2
     else if c = CHR ''E'' \<or> c = CHR ''e'' then Some 4
     else if c = CHR ''F'' \<or> c = CHR ''f'' then Some 5
     else if c = CHR ''G'' \<or> c = CHR ''g'' then Some 7
     else if c = CHR ''A'' \<or> c = CHR ''a'' then Some 9
     else if c = CHR ''B'' \<or> c = CHR ''b'' then Some 11
     else None)"

fun accidental :: "string \<Rightarrow> int \<times> string" where
  "accidental [] = (0, [])"
| "accidental (c # r) =
    (if c = CHR ''#'' then (1, r) else if c = CHR ''b'' then (- 1, r) else (0, c # r))"

fun indexOf :: "char \<Rightarrow> string \<Rightarrow> nat \<Rightarrow> nat option" where
  "indexOf c [] i = None"
| "indexOf c (x # xs) i = (if c = x then Some i else indexOf c xs (Suc i))"

definition digitValue :: "char \<Rightarrow> nat option" where
  "digitValue c = indexOf c ''0123456789'' 0"

fun parseDigits :: "string \<Rightarrow> nat option \<Rightarrow> nat option" where
  "parseDigits [] acc = acc"
| "parseDigits (c # cs) acc =
    (case digitValue c of
       None \<Rightarrow> acc
     | Some d \<Rightarrow> parseDigits cs (Some (10 * (case acc of None \<Rightarrow> 0 | Some a \<Rightarrow> a) + d)))"

definition parseOctave :: "string \<Rightarrow> int option" where
  "parseOctave s =
    (case s of
       [] \<Rightarrow> None
     | c # r \<Rightarrow>
        if c = CHR ''-'' then map_option (\<lambda>n. - int n) (parseDigits r None)
        else map_option int (parseDigits (c # r) None))"

definition noteNumber :: "string \<Rightarrow> int option" where
  "noteNumber note =
    (case note of
       [] \<Rightarrow> None
     | c # r \<Rightarrow>
        (case letterIndex c of
           None \<Rightarrow> None
         | Some i \<Rightarrow>
            (case accidental r of
               (a, r') \<Rightarrow>
                 (case parseOctave r' of
                    None \<Rightarrow> None
                  | Some oct \<Rightarrow> Some (i + a + 12 * oct)))))"

definition toneTranspose :: "string \<Rightarrow> int \<Rightarrow> string" where
  "toneTranspose note n =
    (case noteNumber note of
       None \<Rightarrow> ''undefinedNaN''
     | Some m \<Rightarrow> toNote (m + n))"

section \<open>Transposition engine\<close>

text \<open>
  The functions that call the tone library take its pitch arithmetic as the parameter
  \<open>tr\<close>, and the chord naming takes the external chord detector as the parameter
  \<open>detect\<close>.
\<close>

definition transposeNote :: "(string \<Rightarrow> int \<Rightarrow> string) \<Rightarrow> string \<Rightarrow> int \<Rightarrow> string" where
  "transposeNote tr note n = (if n = 0 then note else tr note n)"

definition getTransposedFrequencies ::
  "(string \<Rightarrow> int \<Rightarrow> string) \<Rightarrow> state \<Rightarrow> KeyboardKeys \<Rightarrow> string list" where
  "getTransposedFrequencies tr s key =
     map (\<lambda>note. transposeNote tr note (transposition s)) (frequencies (chords key))"

definition getChordName ::
  "(string list \<Rightarrow> string list) \<Rightarrow> (string \<Rightarrow> int \<Rightarrow> string) \<Rightarrow> state \<Rightarrow> KeyboardKeys \<Rightarrow> string" where
  "getChordName detect tr s key =
    (let freqs = (if transposition s = 0 then frequencies (chords key)
                  else getTransposedFrequencies tr s key);
         chord = detect freqs
     in if length chord > 0 then hd chord
        else
          let originalChord = detect (frequencies (chords key));
              originalName = (if length originalChord > 0 then hd originalChord else ''Unknown'')
          in if transposition s = 0 then originalName
             else
               let direction = (if transposition s > 0 then ''+'' else '''')
               in originalName @ '' '' @ direction @ numberToString (transposition s))"

definition clamp :: "int \<Rightarrow> int \<Rightarrow> int \<Rightarrow> int" where
  "clamp val mn mx = min (max val mn) mx"

definition setTransposition :: "int \<Rightarrow> state \<Rightarrow> state" where
  "setTransposition v s = s\<lparr>transposition := clamp v (- 24) 24\<rparr>"

section \<open>Double-precision arithmetic\<close>

text \<open>
  A finite double is a real number. The sum, difference, product or quotient of two
  doubles is the exact result rounded to the nearest double, ties to the even significand.
  \<open>binade\<close> is the exponent of a value (not below that of the smallest normal double),
  \<open>ulp\<close> the distance between neighbouring doubles there, and \<open>roundDouble\<close> the rounding.
  Overflow is not modelled: every value that is rounded in this program is a quotient of a
  finite double by 75, or is below 1024 in magnitude.
\<close>

definition binade :: "real \<Rightarrow> int" where
  "binade x = max \<lfloor>log 2 \<bar>x\<bar>\<rfloor> (- 1022)"

definition ulp :: "real \<Rightarrow> real" where
  "ulp x = 2 powr real_of_int (binade x - 52)"

definition roundTiesToEven :: "real \<Rightarrow> int" where
  "roundTiesToEven y =
    (if y - of_int \<lfloor>y\<rfloor> < 1 / 2 then \<lfloor>y\<rfloor>
     else if 1 / 2 < y - of_int \<lfloor>y\<rfloor> then \<lfloor>y\<rfloor> + 1
     else if even \<lfloor>y\<rfloor> then \<lfloor>y\<rfloor> else \<lfloor>y\<rfloor> + 1)"

definition roundDouble :: "real \<Rightarrow> real" where
  "roundDouble x = of_int (roundTiesToEven (x / ulp x)) * ulp x"

section \<open>Angles\<close>

text \<open>
  The remainder operator of the language: the quotient is truncated towards zero. The
  remainder of two doubles is a double, so it is not rounded.
\<close>

definition truncate :: "real \<Rightarrow> int" where
  "truncate x = (if x < 0 then \<lceil>x\<rceil> else \<lfloor>x\<rfloor>)"

definition jsRem :: "real \<Rightarrow> real \<Rightarrow> real" where
  "jsRem a b = a - b * of_int (truncate (a / b))"

definition normalizeAngle :: "real \<Rightarrow> real" where
  "normalizeAngle a = jsRem (roundDouble (jsRem a 360 + 360)) 360"

definition difference :: "real \<Rightarrow> nat \<Rightarrow> real" where
  "difference normalizedAngle mapAngle =
     min (min \<bar>roundDouble (normalizedAngle - real mapAngle)\<bar>
              \<bar>roundDouble (roundDouble (normalizedAngle - real mapAngle) + 360)\<bar>)
         \<bar>roundDouble (roundDouble (normalizedAngle - real mapAngle) - 360)\<bar>"

text \<open>The circular distance of two angles in [0, 360), in exact arithmetic.\<close>

definition circularDistance :: "real \<Rightarrow> real \<Rightarrow> real" where
  "circularDistance x y = min \<bar>x - y\<bar> (360 - \<bar>x - y\<bar>)"

text \<open>
  The keys of an object whose property names are all array indices are listed in ascending
  numeric order, whatever the order of declaration.
\<close>

definition objectKeys :: "(nat \<times> 'a) list \<Rightarrow> nat list" where
  "objectKeys m = sort (remdups (map fst m))"

definition closestStep :: "real \<Rightarrow> nat \<Rightarrow> nat \<times> real \<Rightarrow> nat \<times> real" where
  "closestStep normalizedAngle mapAngle acc =
    (case acc of
       (closestAngle, minDifference) \<Rightarrow>
         if difference normalizedAngle mapAngle < minDifference
         then (mapAngle, difference normalizedAngle mapAngle)
         else (closestAngle, minDifference))"

definition closestAngleOver :: "nat list \<Rightarrow> real \<Rightarrow> nat" where
  "closestAngleOver keys normalizedAngle = fst (fold (closestStep normalizedAngle) keys (0, 360))"

definition semitonesAt :: "nat \<Rightarrow> js_error + int" where
  "semitonesAt closestAngle =
    (case map_of transpositionMap closestAngle of
       None \<Rightarrow> Inl TypeError
     | Some b \<Rightarrow> Inr (semitones b))"

definition getTranspositionFromAngle :: "real \<Rightarrow> js_error + int" where
  "getTranspositionFromAngle a =
     semitonesAt (closestAngleOver (objectKeys transpositionMap) (normalizeAngle a))"


section \<open>Directional control adapter\<close>


definition handleJoystickEnd :: "state \<Rightarrow> state" where
  "handleJoystickEnd s = setTransposition 0 (s\<lparr>joystickActive := False\<rparr>)"

section \<open>Modifier keys\<close>

definition updateWASDTransposition :: "state \<Rightarrow> js_error + state" where
  "updateWASDTransposition st =
    (let w = (''w'' \<in> modifierKeys st);
         a = (''a'' \<in> modifierKeys st);
         s = (''s'' \<in> modifierKeys st);
         d = (''d'' \<in> modifierKeys st);
         ang = (if w \<and> d then Some 45
                else if s \<and> d then Some 315
                else if s \<and> a then Some 225
                else if w \<and> a then Some 135
                else if w then Some 90
                else if d then Some 0
                else if s then Some 270
                else if a then Some 180
                else None)
     in case ang of
          Some x \<Rightarrow>
            (case getTranspositionFromAngle x of
               Inl e \<Rightarrow> Inl e
             | Inr newTransposition \<Rightarrow> Inr (setTransposition newTransposition st))
        | None \<Rightarrow> Inr (setTransposition 0 st))"

text \<open>
  The watcher on the modifier-key set: its callback runs after a handler has changed the
  set; \<open>before\<close> is the state the handler started from.
\<close>

definition watchModifierKeys :: "state \<Rightarrow> state \<Rightarrow> js_error + state" where
  "watchModifierKeys before st =
    (if modifierKeys st \<noteq> modifierKeys before then updateWASDTransposition st else Inr st)"

section \<open>Calls on the tone engine\<close>

definition triggerAttack :: "string list \<Rightarrow> state \<Rightarrow> state" where
  "triggerAttack freqs s = (if synth s then s\<lparr>calls := calls s @ [TriggerAttack freqs]\<rparr> else s)"

definition triggerRelease :: "string list \<Rightarrow> state \<Rightarrow> state" where
  "triggerRelease freqs s = (if synth s then s\<lparr>calls := calls s @ [TriggerRelease freqs]\<rparr> else s)"

section \<open>Live re-transposition\<close>

text \<open>
  The effect has two parts. Its body runs when the offset has changed: it computes the
  frequencies of the sounding chord at the previous offset, records the new offset as the
  previous one, and leaves a deferred callback, which holds those frequencies. The callback
  runs once the pending state changes have settled. \<open>retranspose\<close> runs the body and then
  the callback it left, with no other change in between.
\<close>

definition retransposeEffect ::
  "(string \<Rightarrow> int \<Rightarrow> string) \<Rightarrow> state \<Rightarrow> state \<times> string list option" where
  "retransposeEffect tr s =
    (let pending =
       (case lastKeyClicked s of
          None \<Rightarrow> None
        | Some k \<Rightarrow>
            if transposition s \<noteq> previousTransposition s \<and> k \<in> pressedKeys s \<and> synth s
            then Some (map (\<lambda>note. transposeNote tr note (previousTransposition s))
                        (frequencies (chords k)))
            else None)
     in (s\<lparr>previousTransposition := transposition s\<rparr>, pending))"

definition retransposeDeferred ::
  "(string \<Rightarrow> int \<Rightarrow> string) \<Rightarrow> string list \<Rightarrow> state \<Rightarrow> state" where
  "retransposeDeferred tr oldFreqs s =
    (let s1 = triggerRelease oldFreqs s
     in case lastKeyClicked s1 of
          None \<Rightarrow> s1
        | Some k \<Rightarrow> triggerAttack (getTransposedFrequencies tr s1 k) s1)"

definition retranspose :: "(string \<Rightarrow> int \<Rightarrow> string) \<Rightarrow> state \<Rightarrow> state" where
  "retranspose tr s =
    (case retransposeEffect tr s of
       (s1, None) \<Rightarrow> s1
     | (s1, Some oldFreqs) \<Rightarrow> retransposeDeferred tr oldFreqs s1)"

section \<open>Key handlers\<close>

definition matchChordKey :: "string \<Rightarrow> KeyboardKeys option" where
  "matchChordKey eventKey =
    (if eventKey = ''h'' then Some KeyH
     else if eventKey = ''u'' then Some KeyU
     else if eventKey = ''j'' then Some KeyJ
     else if eventKey = ''i'' then Some KeyI
     else if eventKey = ''k'' then Some KeyK
     else if eventKey = ''o'' then Some KeyO
     else if eventKey = ''l'' then Some KeyL
     else None)"

definition matchModifierKey :: "string \<Rightarrow> bool" where
  "matchModifierKey eventKey =
    (eventKey = ''w'' \<or> eventKey = ''a'' \<or> eventKey = ''s'' \<or> eventKey = ''d'')"


definition onKeyDown :: "(string \<Rightarrow> int \<Rightarrow> string) \<Rightarrow> string \<Rightarrow> state \<Rightarrow> js_error + state" where
  "onKeyDown tr eventKey s =
    (case matchChordKey eventKey of
       Some key \<Rightarrow>
         Inr (if key \<notin> pressedKeys s \<and> synth s then
                let s1 = s\<lparr>pressedKeys := insert key (pressedKeys s)\<rparr>;
                    s2 = (case lastKeyClicked s1 of
                            None \<Rightarrow> s1
                          | Some l \<Rightarrow>
                              if l \<in> pressedKeys s1
                              then (triggerRelease (getTransposedFrequencies tr s1 l) s1)
                                     \<lparr>pressedKeys := pressedKeys s1 - {l}\<rparr>
                              else s1);
                    s3 = triggerAttack (getTransposedFrequencies tr s2 key) s2
                in s3\<lparr>lastKeyClicked := Some key\<rparr>
              else s)
     | None \<Rightarrow>
         if matchModifierKey eventKey then
           Inr (if eventKey \<notin> modifierKeys s
                then s\<lparr>modifierKeys := insert eventKey (modifierKeys s)\<rparr> else s)
         else Inl NoMatchError)"

definition onKeyUp :: "(string \<Rightarrow> int \<Rightarrow> string) \<Rightarrow> string \<Rightarrow> state \<Rightarrow> js_error + state" where
  "onKeyUp tr eventKey s =
    (case matchChordKey eventKey of
       Some key \<Rightarrow>
         Inr (if key \<in> pressedKeys s \<and> synth s then
                let s1 = s\<lparr>pressedKeys := pressedKeys s - {key}\<rparr>;
                    s2 = triggerRelease (getTransposedFrequencies tr s1 key) s1
                in if lastKeyClicked s2 = Some key then s2\<lparr>lastKeyClicked := None\<rparr> else s2
              else s)
     | None \<Rightarrow>
         if matchModifierKey eventKey then Inr (s\<lparr>modifierKeys := modifierKeys s - {eventKey}\<rparr>)
         else Inl NoMatchError)"

text \<open>
  Key events reach the handlers through the window listeners. A handler that throws (no
  pattern matches the key) has changed nothing, and the next event is handled as usual.
\<close>

datatype event = KeyDown string | KeyUp string

fun dispatch :: "(string \<Rightarrow> int \<Rightarrow> string) \<Rightarrow> event \<Rightarrow> state \<Rightarrow> state" where
  "dispatch tr (KeyDown k) s = (case onKeyDown tr k s of Inl e \<Rightarrow> s | Inr s' \<Rightarrow> s')"
| "dispatch tr (KeyUp k) s = (case onKeyUp tr k s of Inl e \<Rightarrow> s | Inr s' \<Rightarrow> s')"

text \<open>\<open>run\<close> applies the two key handlers alone, one event after the other.\<close>

definition run :: "(string \<Rightarrow> int \<Rightarrow> string) \<Rightarrow> event list \<Rightarrow> state \<Rightarrow> state" where
  "run tr es s = fold (dispatch tr) es s"

section \<open>The envelope effect and the reactive runtime\<close>







section \<open>What the tone engine holds\<close>







section \<open>The tie rule in the words of the specification\<close>

text \<open>
  The specification's tie rule for the angle lookup: among the entries at the least
  circular distance, the one declared first. It is the same search, run over the keys in
  the order of declaration.
\<close>

definition offsetFromAngle_declaredOrder :: "real \<Rightarrow> js_error + int" where
  "offsetFromAngle_declaredOrder a =
     semitonesAt (closestAngleOver (map fst transpositionMap) (normalizeAngle a))"

section \<open>Rounding to the nearest double\<close>

lemma roundTiesToEven_error: "\<bar>real_of_int (roundTiesToEven y) - y\<bar> \<le> 1 / 2"
  unfolding roundTiesToEven_def by (auto; linarith)

lemma roundTiesToEven_of_int: "roundTiesToEven (of_int n) = n"
  by (simp add: roundTiesToEven_def)

lemma roundTiesToEven_ge: "of_int n \<le> y \<Longrightarrow> n \<le> roundTiesToEven y"
  unfolding roundTiesToEven_def by (auto simp add: le_floor_iff; linarith)

lemma ulp_pos: "0 < ulp x"
  by (simp add: ulp_def)

lemma roundDouble_error: "\<bar>roundDouble x - x\<bar> \<le> ulp x / 2"
proof -
  have "roundDouble x - x = (of_int (roundTiesToEven (x / ulp x)) - x / ulp x) * ulp x"
    using ulp_pos [of x] by (simp add: roundDouble_def algebra_simps)
  then have "\<bar>roundDouble x - x\<bar> = \<bar>of_int (roundTiesToEven (x / ulp x)) - x / ulp x\<bar> * ulp x"
    using ulp_pos [of x] by (simp add: abs_mult)
  also have "\<dots> \<le> (1 / 2) * ulp x"
    using roundTiesToEven_error [of "x / ulp x"] ulp_pos [of x]
    by (intro mult_right_mono) simp_all
  finally show ?thesis by simp
qed

lemma binade_le:
  assumes "x \<noteq> 0" and "\<bar>x\<bar> < 2 powr real_of_int n" and "- 1021 \<le> n"
  shows "binade x \<le> n - 1"
proof -
  from assms(1) have "0 < \<bar>x\<bar>" by simp
  with assms(2) have "log 2 \<bar>x\<bar> < real_of_int n"
    by (simp add: log_less_iff)
  then have "\<lfloor>log 2 \<bar>x\<bar>\<rfloor> < n" by (simp add: floor_less_iff)
  then have "\<lfloor>log 2 \<bar>x\<bar>\<rfloor> \<le> n - 1" by simp
  with assms(3) show ?thesis by (simp add: binade_def)
qed

lemma roundDouble_zero: "roundDouble 0 = 0"
  by (simp add: roundDouble_def roundTiesToEven_def)

lemma roundDouble_error_below:
  assumes "\<bar>x\<bar> < 2 powr real_of_int n" and "- 1021 \<le> n"
  shows "\<bar>roundDouble x - x\<bar> \<le> 2 powr real_of_int (n - 54)"
proof (cases "x = 0")
  case True
  then show ?thesis by (simp add: roundDouble_zero)
next
  case False
  from binade_le [OF False assms] have "ulp x \<le> 2 powr real_of_int (n - 53)"
    by (simp add: ulp_def)
  then have "ulp x / 2 \<le> 2 powr real_of_int (n - 53) / 2" by simp
  also have "\<dots> = 2 powr real_of_int (n - 54)"
    by (simp add: powr_diff)
  finally show ?thesis using roundDouble_error [of x] by linarith
qed

lemma roundDouble_error_1024: "\<bar>x\<bar> < 1024 \<Longrightarrow> \<bar>roundDouble x - x\<bar> \<le> 1 / 2 ^ 44"
  using roundDouble_error_below [of x 10] by (simp add: powr_minus_divide)



lemma roundDouble_nonneg: "0 \<le> x \<Longrightarrow> 0 \<le> roundDouble x"
proof -
  assume "0 \<le> x"
  then have "of_int 0 \<le> x / ulp x" using ulp_pos [of x] by simp
  from roundTiesToEven_ge [OF this] show ?thesis
    using ulp_pos [of x] by (simp add: roundDouble_def)
qed


lemma binade_eq:
  assumes "2 powr real_of_int e \<le> \<bar>x\<bar>" and "\<bar>x\<bar> < 2 powr real_of_int (e + 1)" and "- 1022 \<le> e"
  shows "binade x = e"
proof -
  have pos: "0 < \<bar>x\<bar>" using assms(1) by (smt (verit) powr_gt_zero)
  from assms(1) pos have "real_of_int e \<le> log 2 \<bar>x\<bar>" by (simp add: le_log_iff)
  moreover from assms(2) pos have "log 2 \<bar>x\<bar> < real_of_int e + 1" by (simp add: log_less_iff)
  ultimately have "\<lfloor>log 2 \<bar>x\<bar>\<rfloor> = e" by (intro floor_unique) simp_all
  with assms(3) show ?thesis by (simp add: binade_def)
qed


text \<open>Values with a short binary expansion are not changed.\<close>

lemma roundDouble_dyadic:
  assumes "\<bar>m\<bar> < 2 ^ 53" and "p \<le> 1074"
  shows "roundDouble (real_of_int m / 2 ^ p) = real_of_int m / 2 ^ p"
proof (cases "m = 0")
  case True
  then show ?thesis by (simp add: roundDouble_zero)
next
  case False
  let ?x = "real_of_int m / 2 ^ p"
  have x0: "?x \<noteq> 0" using False by simp
  have "\<bar>?x\<bar> = real_of_int \<bar>m\<bar> / 2 ^ p" by (simp add: abs_divide)
  also have "\<dots> < 2 ^ 53 / 2 ^ p"
  proof -
    from assms(1) have "real_of_int \<bar>m\<bar> < real_of_int (2 ^ 53)" by (simp only: of_int_less_iff)
    then show ?thesis by (intro divide_strict_right_mono) simp_all
  qed
  also have "\<dots> = 2 powr real_of_int (53 - int p)"
    by (simp add: powr_diff powr_realpow)
  finally have "\<bar>?x\<bar> < 2 powr real_of_int (53 - int p)" .
  from binade_le [OF x0 this] assms(2) have "binade ?x \<le> 52 - int p" by simp
  then obtain j :: nat where j: "int j = 52 - int p - binade ?x"
    by (metis diff_ge_0_iff_ge nonneg_int_cases)
  then have "real_of_int (binade ?x - 52) = - real p - real j" by linarith
  then have "ulp ?x = 2 powr (- real p - real j)"
    by (simp add: ulp_def)
  then have u: "ulp ?x = 1 / (2 ^ p * 2 ^ j)"
    by (simp add: powr_diff powr_minus_divide powr_realpow)
  have "?x / ulp ?x = real_of_int (m * 2 ^ j)" unfolding u by simp
  then have "roundTiesToEven (?x / ulp ?x) = m * 2 ^ j"
    by (simp only: roundTiesToEven_of_int)
  then show ?thesis unfolding roundDouble_def by (simp add: u)
qed

text \<open>The rounded value of a normal number, given its binade as a shift.\<close>

lemma roundDouble_eval:
  assumes "2 ^ 52 \<le> \<bar>x\<bar> * 2 ^ p" and "\<bar>x\<bar> * 2 ^ p < 2 ^ 53" and "p \<le> 1074"
  shows "roundDouble x = real_of_int (roundTiesToEven (x * 2 ^ p)) / 2 ^ p"
proof -
  have "2 powr real_of_int (52 - int p) = 2 ^ 52 / 2 ^ p"
    by (simp add: powr_diff powr_realpow)
  moreover from assms(1) have "2 ^ 52 / 2 ^ p \<le> \<bar>x\<bar>" by (simp add: pos_divide_le_eq)
  ultimately have lo: "2 powr real_of_int (52 - int p) \<le> \<bar>x\<bar>" by (simp only:)
  have "2 powr real_of_int (52 - int p + 1) = 2 ^ 53 / 2 ^ p"
    by (simp add: powr_diff powr_add powr_realpow)
  moreover from assms(2) have "\<bar>x\<bar> < 2 ^ 53 / 2 ^ p" by (simp add: pos_less_divide_eq)
  ultimately have hi: "\<bar>x\<bar> < 2 powr real_of_int (52 - int p + 1)" by (simp only:)
  from binade_eq [OF lo hi] assms(3) have "binade x = 52 - int p" by simp
  then have "ulp x = 2 powr (- real p)" by (simp add: ulp_def)
  then have "ulp x = 1 / 2 ^ p" by (simp add: powr_minus_divide powr_realpow)
  then show ?thesis by (simp add: roundDouble_def)
qed

lemma roundDouble_int: "\<bar>m\<bar> < 2 ^ 53 \<Longrightarrow> roundDouble (real_of_int m) = real_of_int m"
  using roundDouble_dyadic [of m 0] by simp

lemma roundDouble_half:
  "\<bar>m\<bar> < 2 ^ 53 \<Longrightarrow> roundDouble (real_of_int m / 2) = real_of_int m / 2"
  using roundDouble_dyadic [of m 1] by simp

lemma roundDouble_exact:
  "roundDouble 0 = 0"
  "roundDouble 1 = 1"
  "\<bar>numeral k\<bar> < (2::int) ^ 53 \<Longrightarrow> roundDouble (numeral k) = numeral k"
  "\<bar>numeral k\<bar> < (2::int) ^ 53 \<Longrightarrow> roundDouble (- numeral k) = - numeral k"
  "\<bar>numeral k\<bar> < (2::int) ^ 53 \<Longrightarrow> roundDouble (numeral k / 2) = numeral k / 2"
  "\<bar>numeral k\<bar> < (2::int) ^ 53 \<Longrightarrow> roundDouble (- (numeral k / 2)) = - (numeral k / 2)"
  using roundDouble_int [of 0] roundDouble_int [of 1] roundDouble_int [of "numeral k"]
    roundDouble_int [of "- numeral k"] roundDouble_half [of "numeral k"]
    roundDouble_half [of "- numeral k"]
  by simp_all

section \<open>Angle normalisation\<close>

lemma jsRem_nonneg:
  assumes "0 \<le> a"
  shows "jsRem a 360 = a - 360 * of_int \<lfloor>a / 360\<rfloor>"
  using assms by (simp add: jsRem_def truncate_def)

lemma frac_range:
  fixes a :: real
  shows "0 \<le> a - 360 * of_int \<lfloor>a / 360\<rfloor>" "a - 360 * of_int \<lfloor>a / 360\<rfloor> < 360"
proof -
  have "of_int \<lfloor>a / 360\<rfloor> \<le> a / 360" by (rule of_int_floor_le)
  then show "0 \<le> a - 360 * of_int \<lfloor>a / 360\<rfloor>" by simp
  have "a / 360 < of_int \<lfloor>a / 360\<rfloor> + 1" by linarith
  then show "a - 360 * of_int \<lfloor>a / 360\<rfloor> < 360" by (simp add: field_simps)
qed

lemma jsRem_abs: "\<bar>jsRem a 360\<bar> < 360"
proof -
  have "\<bar>a / 360 - real_of_int (truncate (a / 360))\<bar> < 1"
    unfolding truncate_def by (auto; linarith)
  then have "\<bar>360 * (a / 360 - real_of_int (truncate (a / 360)))\<bar> < 360 * 1"
    by (simp add: abs_mult)
  then show ?thesis by (simp add: jsRem_def algebra_simps)
qed

lemma normalizeAngle_range: "0 \<le> normalizeAngle a" "normalizeAngle a < 360"
proof -
  let ?s = "roundDouble (jsRem a 360 + 360)"
  from jsRem_abs [of a] have "0 \<le> jsRem a 360 + 360" by linarith
  then have "0 \<le> ?s" by (rule roundDouble_nonneg)
  then have "normalizeAngle a = ?s - 360 * of_int \<lfloor>?s / 360\<rfloor>"
    by (simp add: normalizeAngle_def jsRem_nonneg)
  then show "0 \<le> normalizeAngle a" "normalizeAngle a < 360"
    by (simp_all only: frac_range)
qed

lemma circularDistance_shift:
  assumes x: "0 \<le> x" "x < 360" and y: "0 \<le> y" "y < 360"
    and j: "\<bar>x - y - 360 * real_of_int j\<bar> \<le> e" and e: "e < 1"
  shows "circularDistance x y \<le> e"
proof -
  have "- 1 \<le> j \<and> j \<le> 1"
  proof (rule ccontr)
    assume "\<not> (- 1 \<le> j \<and> j \<le> 1)"
    then consider "j \<le> - 2" | "2 \<le> j" by linarith
    then show False
    proof cases
      case 1
      then have "real_of_int j \<le> - 2" by linarith
      with x y j e show False by linarith
    next
      case 2
      then have "2 \<le> real_of_int j" by linarith
      with x y j e show False by linarith
    qed
  qed
  then consider "j = - 1" | "j = 0" | "j = 1" by linarith
  then show ?thesis
  proof cases
    case 1
    with x y j show ?thesis by (auto simp add: circularDistance_def; linarith)
  next
    case 2
    with x y j show ?thesis by (auto simp add: circularDistance_def; linarith)
  next
    case 3
    with x y j show ?thesis by (auto simp add: circularDistance_def; linarith)
  qed
qed

text \<open>The normalised angle is the angle modulo 360, up to one rounding.\<close>

lemma normalizeAngle_close:
  "circularDistance (normalizeAngle a) (a - 360 * of_int \<lfloor>a / 360\<rfloor>) \<le> 1 / 2 ^ 44"
proof -
  let ?r1 = "jsRem a 360"
  let ?s = "roundDouble (?r1 + 360)"
  from jsRem_abs [of a] have b: "0 \<le> ?r1 + 360" "\<bar>?r1 + 360\<bar> < 1024" by linarith+
  from roundDouble_error_1024 [OF b(2)] have err: "\<bar>?s - (?r1 + 360)\<bar> \<le> 1 / 2 ^ 44" .
  from b(1) have "0 \<le> ?s" by (rule roundDouble_nonneg)
  then have na: "normalizeAngle a = ?s - 360 * of_int \<lfloor>?s / 360\<rfloor>"
    by (simp add: normalizeAngle_def jsRem_nonneg)
  define j where "j = 1 - \<lfloor>?s / 360\<rfloor> - truncate (a / 360) + \<lfloor>a / 360\<rfloor>"
  have "normalizeAngle a - (a - 360 * of_int \<lfloor>a / 360\<rfloor>) - 360 * real_of_int j
      = ?s - (?r1 + 360)"
    unfolding na j_def by (simp add: jsRem_def algebra_simps)
  with err have "\<bar>normalizeAngle a - (a - 360 * of_int \<lfloor>a / 360\<rfloor>) - 360 * real_of_int j\<bar>
      \<le> 1 / 2 ^ 44" by simp
  then show ?thesis
    by (intro circularDistance_shift [where j = j] normalizeAngle_range frac_range) simp_all
qed

section \<open>The computed difference and the circular distance\<close>

lemma circularDistance_three:
  fixes d :: real
  assumes "\<bar>d\<bar> < 360"
  shows "min (min \<bar>d\<bar> \<bar>d + 360\<bar>) \<bar>d - 360\<bar> = min \<bar>d\<bar> (360 - \<bar>d\<bar>)"
  using assms by linarith

lemma min3_close:
  fixes a b c a' b' c' e :: real
  assumes "\<bar>a - a'\<bar> \<le> e" and "\<bar>b - b'\<bar> \<le> e" and "\<bar>c - c'\<bar> \<le> e"
  shows "\<bar>min (min a b) c - min (min a' b') c'\<bar> \<le> e"
  using assms by linarith

text \<open>
  The difference the code computes for a key is the circular distance between the
  normalised angle and the key's angle, up to two roundings.
\<close>

lemma difference_close:
  assumes na: "0 \<le> na" "na < 360" and k: "k < 360"
  shows "\<bar>difference na k - circularDistance na (real k)\<bar> \<le> 1 / 2 ^ 43"
proof -
  define d where "d = na - real k"
  define t where "t = roundDouble d"
  define e :: real where "e = 1 / 2 ^ 44"
  have e: "0 \<le> e" "e \<le> 1" "1 / 2 ^ 43 = 2 * e" by (simp_all add: e_def)
  from na k have d: "\<bar>d\<bar> < 360" unfolding d_def by linarith
  then have "\<bar>d\<bar> < 1024" by simp
  from roundDouble_error_1024 [OF this] have t: "\<bar>t - d\<bar> \<le> e" unfolding t_def e_def .
  with d e have "\<bar>t + 360\<bar> < 1024" "\<bar>t - 360\<bar> < 1024" by linarith+
  from this [THEN roundDouble_error_1024]
  have u: "\<bar>roundDouble (t + 360) - (t + 360)\<bar> \<le> e"
    and v: "\<bar>roundDouble (t - 360) - (t - 360)\<bar> \<le> e" unfolding e_def by simp_all
  have 1: "\<bar>\<bar>t\<bar> - \<bar>d\<bar>\<bar> \<le> 2 * e" using t e by linarith
  have 2: "\<bar>\<bar>roundDouble (t + 360)\<bar> - \<bar>d + 360\<bar>\<bar> \<le> 2 * e"
    using t u by linarith
  have 3: "\<bar>\<bar>roundDouble (t - 360)\<bar> - \<bar>d - 360\<bar>\<bar> \<le> 2 * e"
    using t v by linarith
  have "difference na k = min (min \<bar>t\<bar> \<bar>roundDouble (t + 360)\<bar>) \<bar>roundDouble (t - 360)\<bar>"
    by (simp add: difference_def t_def d_def)
  moreover have "circularDistance na (real k) = min (min \<bar>d\<bar> \<bar>d + 360\<bar>) \<bar>d - 360\<bar>"
    using circularDistance_three [OF d] by (simp add: circularDistance_def d_def)
  ultimately show ?thesis using min3_close [OF 1 2 3] unfolding e(3) by (simp only:)
qed

lemma circularDistance_bound:
  assumes "0 \<le> x" "x < 360" "0 \<le> y" "y < 360"
  shows "0 \<le> circularDistance x y" "circularDistance x y \<le> 180"
  using assms unfolding circularDistance_def by linarith+

lemma circularDistance_sym: "circularDistance x y = circularDistance y x"
  by (simp add: circularDistance_def abs_minus_commute)

lemma circularDistance_triangle:
  assumes "0 \<le> x" "x < 360" "0 \<le> y" "y < 360" "0 \<le> z" "z < 360"
  shows "circularDistance x z \<le> circularDistance x y + circularDistance y z"
  using assms unfolding circularDistance_def by linarith

lemma difference_bound:
  assumes "0 \<le> na" "na < 360" "k < 360"
  shows "difference na k < 360"
proof -
  from assms have "circularDistance na (real k) \<le> 180"
    by (intro circularDistance_bound) simp_all
  moreover have "(1::real) / 2 ^ 43 \<le> 1" by simp
  ultimately show ?thesis using difference_close [OF assms] by linarith
qed

section \<open>The search for the closest compass angle\<close>

lemma objectKeys_transpositionMap:
  "objectKeys transpositionMap = [0, 45, 90, 135, 180, 225, 270, 315]"
  by (simp add: objectKeys_def transpositionMap_def)

lemma fold_closestStep:
  "(fold (closestStep na) ks (c0, d0) = (c0, d0) \<and> (\<forall>k\<in>set ks. d0 \<le> difference na k))
   \<or> (\<exists>c ys zs. fold (closestStep na) ks (c0, d0) = (c, difference na c) \<and> ks = ys @ c # zs
        \<and> difference na c < d0
        \<and> (\<forall>k\<in>set ys. difference na c < difference na k)
        \<and> (\<forall>k\<in>set zs. difference na c \<le> difference na k))"
proof (induction ks arbitrary: c0 d0)
  case Nil
  then show ?case by simp
next
  case (Cons k ks)
  show ?case
  proof (cases "difference na k < d0")
    case True
    then have step: "fold (closestStep na) (k # ks) (c0, d0) = fold (closestStep na) ks (k, difference na k)"
      by (simp add: closestStep_def)
    from Cons.IH [of k "difference na k"] show ?thesis
    proof (elim disjE conjE exE)
      assume "fold (closestStep na) ks (k, difference na k) = (k, difference na k)"
        and "\<forall>x\<in>set ks. difference na k \<le> difference na x"
      with True step have "fold (closestStep na) (k # ks) (c0, d0) = (k, difference na k)
          \<and> k # ks = [] @ k # ks \<and> difference na k < d0
          \<and> (\<forall>x\<in>set []. difference na k < difference na x)
          \<and> (\<forall>x\<in>set ks. difference na k \<le> difference na x)" by simp
      then show ?thesis by blast
    next
      fix c ys zs
      assume "fold (closestStep na) ks (k, difference na k) = (c, difference na c)"
        and "ks = ys @ c # zs" and "difference na c < difference na k"
        and "\<forall>x\<in>set ys. difference na c < difference na x"
        and "\<forall>x\<in>set zs. difference na c \<le> difference na x"
      with True step have "fold (closestStep na) (k # ks) (c0, d0) = (c, difference na c)
          \<and> k # ks = (k # ys) @ c # zs \<and> difference na c < d0
          \<and> (\<forall>x\<in>set (k # ys). difference na c < difference na x)
          \<and> (\<forall>x\<in>set zs. difference na c \<le> difference na x)" by simp
      then show ?thesis by blast
    qed
  next
    case False
    then have step: "fold (closestStep na) (k # ks) (c0, d0) = fold (closestStep na) ks (c0, d0)"
      by (simp add: closestStep_def)
    from Cons.IH [of c0 d0] show ?thesis
    proof (elim disjE conjE exE)
      assume "fold (closestStep na) ks (c0, d0) = (c0, d0)"
        and "\<forall>x\<in>set ks. d0 \<le> difference na x"
      with False step show ?thesis by simp
    next
      fix c ys zs
      assume "fold (closestStep na) ks (c0, d0) = (c, difference na c)"
        and "ks = ys @ c # zs" and "difference na c < d0"
        and "\<forall>x\<in>set ys. difference na c < difference na x"
        and "\<forall>x\<in>set zs. difference na c \<le> difference na x"
      with False step have "fold (closestStep na) (k # ks) (c0, d0) = (c, difference na c)
          \<and> k # ks = (k # ys) @ c # zs \<and> difference na c < d0
          \<and> (\<forall>x\<in>set (k # ys). difference na c < difference na x)
          \<and> (\<forall>x\<in>set zs. difference na c \<le> difference na x)" by simp
      then show ?thesis by blast
    qed
  qed
qed

text \<open>The search of the code over any list of keys below 360, from the start values.\<close>

lemma closestAngleOver_first:
  assumes na: "0 \<le> na" "na < 360" and ks: "ks \<noteq> []" "\<forall>k\<in>set ks. k < 360"
  shows "\<exists>ys zs. ks = ys @ closestAngleOver ks na # zs
        \<and> (\<forall>k\<in>set ys. difference na (closestAngleOver ks na) < difference na k)
        \<and> (\<forall>k\<in>set zs. difference na (closestAngleOver ks na) \<le> difference na k)"
proof -
  from ks obtain k0 where k0: "k0 \<in> set ks" by (cases ks) auto
  with ks na have "difference na k0 < 360" by (simp add: difference_bound)
  with k0 have "\<not> (\<forall>k\<in>set ks. 360 \<le> difference na k)" by force
  with fold_closestStep [of na ks 0 360] obtain c ys zs where
    "fold (closestStep na) ks (0, 360) = (c, difference na c)" "ks = ys @ c # zs"
    "\<forall>k\<in>set ys. difference na c < difference na k"
    "\<forall>k\<in>set zs. difference na c \<le> difference na k" by blast
  then show ?thesis by (auto simp add: closestAngleOver_def)
qed

lemma closestAngleOver_sorted:
  assumes na: "0 \<le> na" "na < 360" and ks: "ks \<noteq> []" "\<forall>k\<in>set ks. k < 360" "sorted ks"
  shows "closestAngleOver ks na \<in> set ks
     \<and> (\<forall>k\<in>set ks. difference na (closestAngleOver ks na) \<le> difference na k)
     \<and> (\<forall>k\<in>set ks. difference na k = difference na (closestAngleOver ks na)
            \<longrightarrow> closestAngleOver ks na \<le> k)"
proof -
  from closestAngleOver_first [OF na ks(1,2)] obtain ys zs where
    split: "ks = ys @ closestAngleOver ks na # zs"
    and ys: "\<forall>k\<in>set ys. difference na (closestAngleOver ks na) < difference na k"
    and zs: "\<forall>k\<in>set zs. difference na (closestAngleOver ks na) \<le> difference na k" by blast
  from split have mem: "closestAngleOver ks na \<in> set ks" by (metis in_set_conv_decomp)
  from split ks(3) have "sorted (ys @ closestAngleOver ks na # zs)" by simp
  then have later: "\<forall>k\<in>set zs. closestAngleOver ks na \<le> k"
    by (simp add: sorted_append)
  have set: "set ks = set ys \<union> {closestAngleOver ks na} \<union> set zs"
    by (subst split) auto
  show ?thesis
  proof (intro conjI ballI impI)
    show "closestAngleOver ks na \<in> set ks" by (rule mem)
  next
    fix k assume "k \<in> set ks"
    with set ys zs show "difference na (closestAngleOver ks na) \<le> difference na k" by force
  next
    fix k assume "k \<in> set ks" and eq: "difference na k = difference na (closestAngleOver ks na)"
    with set ys later show "closestAngleOver ks na \<le> k" by force
  qed
qed

lemma set_objectKeys: "set (objectKeys m) = fst ` set m"
  by (simp add: objectKeys_def)

lemma keys_below_360: "\<forall>k\<in>set (objectKeys transpositionMap). k < 360"
  by (simp add: objectKeys_transpositionMap)

lemma semitonesAt_table:
  assumes "k \<in> fst ` set transpositionMap"
  shows "\<exists>b. (k, b) \<in> set transpositionMap \<and> semitonesAt k = Inr (semitones b)"
proof -
  from assms obtain b where "map_of transpositionMap k = Some b"
    by (cases "map_of transpositionMap k") (auto simp add: map_of_eq_None_iff)
  then show ?thesis by (auto simp add: semitonesAt_def dest: map_of_SomeD)
qed

text \<open>
  What the lookup returns for any angle: the value of an entry of the table whose computed
  difference from the normalised angle is least and which, among the entries with that
  difference, has the smallest angle.
\<close>

lemma getTranspositionFromAngle_closest:
  "\<exists>c b. (c, b) \<in> set transpositionMap
      \<and> getTranspositionFromAngle a = Inr (semitones b)
      \<and> (\<forall>k\<in>fst ` set transpositionMap.
            difference (normalizeAngle a) c \<le> difference (normalizeAngle a) k
            \<and> (difference (normalizeAngle a) k = difference (normalizeAngle a) c \<longrightarrow> c \<le> k))"
proof -
  let ?ks = "objectKeys transpositionMap"
  let ?na = "normalizeAngle a"
  let ?c = "closestAngleOver ?ks ?na"
  have ne: "?ks \<noteq> []" and so: "sorted ?ks" by (simp_all add: objectKeys_transpositionMap)
  from closestAngleOver_sorted [OF normalizeAngle_range ne keys_below_360 so, of a]
  have mem: "?c \<in> set ?ks"
    and least: "\<forall>k\<in>set ?ks. difference ?na ?c \<le> difference ?na k"
    and ties: "\<forall>k\<in>set ?ks. difference ?na k = difference ?na ?c \<longrightarrow> ?c \<le> k"
    by blast+
  from mem semitonesAt_table obtain b where
    b: "(?c, b) \<in> set transpositionMap" "semitonesAt ?c = Inr (semitones b)"
    by (auto simp add: set_objectKeys)
  from b(2) have "getTranspositionFromAngle a = Inr (semitones b)"
    by (simp add: getTranspositionFromAngle_def)
  with b(1) least ties show ?thesis unfolding set_objectKeys by blast
qed

text \<open>
  The selected entry is also nearest to the angle itself, modulo 360 and in exact
  arithmetic, up to the roundings of the normalisation and of the differences.
\<close>

lemma getTranspositionFromAngle_selected:
  "\<exists>c b. (c, b) \<in> set transpositionMap
      \<and> getTranspositionFromAngle a = Inr (semitones b)
      \<and> (\<forall>k\<in>fst ` set transpositionMap.
            difference (normalizeAngle a) c \<le> difference (normalizeAngle a) k
            \<and> (difference (normalizeAngle a) k = difference (normalizeAngle a) c \<longrightarrow> c \<le> k)
            \<and> circularDistance (a - 360 * of_int \<lfloor>a / 360\<rfloor>) (real c)
                 \<le> circularDistance (a - 360 * of_int \<lfloor>a / 360\<rfloor>) (real k) + 1 / 2 ^ 41)"
proof -
  let ?na = "normalizeAngle a"
  let ?r = "a - 360 * of_int \<lfloor>a / 360\<rfloor>"
  define e :: real where "e = 1 / 2 ^ 44"
  have e: "1 / 2 ^ 43 = 2 * e" "1 / 2 ^ 41 = 8 * e" "0 \<le> e" by (simp_all add: e_def)
  from getTranspositionFromAngle_closest [of a] obtain c b where
    cb: "(c, b) \<in> set transpositionMap"
    and val: "getTranspositionFromAngle a = Inr (semitones b)"
    and least: "\<forall>k\<in>fst ` set transpositionMap.
            difference ?na c \<le> difference ?na k
            \<and> (difference ?na k = difference ?na c \<longrightarrow> c \<le> k)" by blast
  have keys: "k < 360" if "k \<in> fst ` set transpositionMap" for k
    using that keys_below_360 by (auto simp add: set_objectKeys)
  from cb have cm: "c \<in> fst ` set transpositionMap" by force
  note na = normalizeAngle_range [of a]
  note r = frac_range [of a]
  have close: "circularDistance ?na ?r \<le> e" unfolding e_def by (rule normalizeAngle_close)
  have near: "circularDistance ?r (real c) \<le> circularDistance ?r (real k) + 1 / 2 ^ 41"
    if k: "k \<in> fst ` set transpositionMap" for k
  proof -
    from keys [OF k] have k360: "0 \<le> real k" "real k < 360" by simp_all
    from keys [OF cm] have c360: "0 \<le> real c" "real c < 360" by simp_all
    have dc: "\<bar>difference ?na c - circularDistance ?na (real c)\<bar> \<le> 2 * e"
      using difference_close [OF na keys [OF cm]] unfolding e(1) .
    have dk: "\<bar>difference ?na k - circularDistance ?na (real k)\<bar> \<le> 2 * e"
      using difference_close [OF na keys [OF k]] unfolding e(1) .
    from least k have le: "difference ?na c \<le> difference ?na k" by blast
    have t1: "circularDistance ?r (real c)
        \<le> circularDistance ?r ?na + circularDistance ?na (real c)"
      by (intro circularDistance_triangle r na c360)
    have t2: "circularDistance ?na (real k)
        \<le> circularDistance ?na ?r + circularDistance ?r (real k)"
      by (intro circularDistance_triangle r na k360)
    have s: "circularDistance ?r ?na = circularDistance ?na ?r" by (rule circularDistance_sym)
    from t1 t2 s dc dk le close e(3) show ?thesis unfolding e(2) by linarith
  qed
  from cb val least near show ?thesis by blast
qed

section \<open>Values of the lookup\<close>

lemmas search_defs = getTranspositionFromAngle_def objectKeys_def transpositionMap_def
  closestAngleOver_def closestStep_def difference_def semitonesAt_def roundDouble_exact

lemmas angle_defs = search_defs normalizeAngle_def jsRem_def truncate_def

lemma getTranspositionFromAngle_compass:
  "getTranspositionFromAngle 90 = Inr 0"
  "getTranspositionFromAngle 45 = Inr 2"
  "getTranspositionFromAngle 0 = Inr 4"
  "getTranspositionFromAngle 315 = Inr 7"
  "getTranspositionFromAngle 270 = Inr 5"
  "getTranspositionFromAngle 225 = Inr (- 3)"
  "getTranspositionFromAngle 180 = Inr (- 6)"
  "getTranspositionFromAngle 135 = Inr 3"
  by (simp_all add: angle_defs)

text \<open>
  Just above the midpoint 22.5 there is the double 22.5 + 2^-48. Adding 360 to it rounds
  the sum to 382.5, so it is normalised to 22.5.
\<close>

lemma roundDouble_382:
  "roundDouble (107664178591825921 / 281474976710656) = 765 / 2"
  by (subst roundDouble_eval [where p = 44]) (simp_all add: roundTiesToEven_def)

lemma normalizeAngle_above_midpoint:
  "normalizeAngle (6333186975989761 / 281474976710656) = 45 / 2"
  by (simp add: normalizeAngle_def jsRem_def truncate_def roundDouble_382)

text \<open>
  C3 (amended): for every angle, the lookup normalises the angle into [0, 360), to the
  angle modulo 360 up to one rounding (at most 2^-44 of circular distance). It returns the
  value of the table entry whose computed difference from the normalised angle is least;
  the computed difference is the circular distance to the entry's compass angle up to
  2^-43. Among the entries with the least computed difference it takes the one with the
  smallest angle, because the keys of the table are visited in ascending numeric order, not
  in the order of declaration. The selected entry is therefore at the least circular
  distance from the input up to 2^-41 of a degree, and need not be the nearest one for an
  input closer than that to a midpoint between two compass angles.
\<close>

theorem getTranspositionFromAngle_nearest_smallest:
  "0 \<le> normalizeAngle a \<and> normalizeAngle a < 360
   \<and> circularDistance (normalizeAngle a) (a - 360 * of_int \<lfloor>a / 360\<rfloor>) \<le> 1 / 2 ^ 44
   \<and> (\<forall>k\<in>fst ` set transpositionMap.
         \<bar>difference (normalizeAngle a) k - circularDistance (normalizeAngle a) (real k)\<bar>
           \<le> 1 / 2 ^ 43)
   \<and> (\<exists>c b. (c, b) \<in> set transpositionMap
         \<and> getTranspositionFromAngle a = Inr (semitones b)
         \<and> (\<forall>k\<in>fst ` set transpositionMap.
               difference (normalizeAngle a) c \<le> difference (normalizeAngle a) k
               \<and> (difference (normalizeAngle a) k = difference (normalizeAngle a) c \<longrightarrow> c \<le> k)
               \<and> circularDistance (a - 360 * of_int \<lfloor>a / 360\<rfloor>) (real c)
                    \<le> circularDistance (a - 360 * of_int \<lfloor>a / 360\<rfloor>) (real k) + 1 / 2 ^ 41))"
proof (intro conjI)
  show "0 \<le> normalizeAngle a" "normalizeAngle a < 360" by (rule normalizeAngle_range)+
  show "circularDistance (normalizeAngle a) (a - 360 * of_int \<lfloor>a / 360\<rfloor>) \<le> 1 / 2 ^ 44"
    by (rule normalizeAngle_close)
  show "\<forall>k\<in>fst ` set transpositionMap.
         \<bar>difference (normalizeAngle a) k - circularDistance (normalizeAngle a) (real k)\<bar>
           \<le> 1 / 2 ^ 43"
  proof
    fix k assume "k \<in> fst ` set transpositionMap"
    with keys_below_360 have "k < 360" by (auto simp add: set_objectKeys)
    with normalizeAngle_range [of a]
    show "\<bar>difference (normalizeAngle a) k - circularDistance (normalizeAngle a) (real k)\<bar>
           \<le> 1 / 2 ^ 43"
      by (intro difference_close)
  qed
  show "\<exists>c b. (c, b) \<in> set transpositionMap
         \<and> getTranspositionFromAngle a = Inr (semitones b)
         \<and> (\<forall>k\<in>fst ` set transpositionMap.
               difference (normalizeAngle a) c \<le> difference (normalizeAngle a) k
               \<and> (difference (normalizeAngle a) k = difference (normalizeAngle a) c \<longrightarrow> c \<le> k)
               \<and> circularDistance (a - 360 * of_int \<lfloor>a / 360\<rfloor>) (real c)
                    \<le> circularDistance (a - 360 * of_int \<lfloor>a / 360\<rfloor>) (real k) + 1 / 2 ^ 41)"
    by (rule getTranspositionFromAngle_selected)
qed

theorem getTranspositionFromAngle_nearest_smallest_witness:
  "(0::nat) \<in> fst ` set transpositionMap \<and> (45::nat) \<in> fst ` set transpositionMap
   \<and> normalizeAngle (6333186975989761 / 281474976710656) = 45 / 2
   \<and> normalizeAngle (6333186975989761 / 281474976710656) < 360
   \<and> difference (45 / 2) 0 = 45 / 2 \<and> difference (45 / 2) 45 = 45 / 2
   \<and> getTranspositionFromAngle (6333186975989761 / 281474976710656) = Inr 4
   \<and> circularDistance (6333186975989761 / 281474976710656) 45
       < circularDistance (6333186975989761 / 281474976710656) 0
   \<and> circularDistance (6333186975989761 / 281474976710656) 0
       \<le> circularDistance (6333186975989761 / 281474976710656) 45 + 1 / 2 ^ 41"
proof -
  have 1: "(0::nat) \<in> fst ` set transpositionMap \<and> (45::nat) \<in> fst ` set transpositionMap"
    by (simp add: transpositionMap_def)
  have 2: "normalizeAngle (6333186975989761 / 281474976710656) = 45 / 2"
    by (rule normalizeAngle_above_midpoint)
  from getTranspositionFromAngle_nearest_smallest [of "6333186975989761 / 281474976710656"]
  have 3: "normalizeAngle (6333186975989761 / 281474976710656) < 360" by (elim conjE)
  have 4: "difference (45 / 2) 0 = 45 / 2 \<and> difference (45 / 2) 45 = 45 / 2"
    by (simp add: difference_def roundDouble_exact)
  have 5: "getTranspositionFromAngle (6333186975989761 / 281474976710656) = Inr 4"
    by (simp add: search_defs normalizeAngle_above_midpoint)
  have 6: "circularDistance (6333186975989761 / 281474976710656) 45
       < circularDistance (6333186975989761 / 281474976710656) 0
     \<and> circularDistance (6333186975989761 / 281474976710656) 0
       \<le> circularDistance (6333186975989761 / 281474976710656) 45 + 1 / 2 ^ 41"
    by (simp add: circularDistance_def)
  from 1 2 3 4 5 6 show ?thesis by (simp only:)
qed

theorem getTranspositionFromAngle_tie_counterexample:
  "normalizeAngle (45 / 2) = 45 / 2
   \<and> difference (normalizeAngle (45 / 2)) 45 = difference (normalizeAngle (45 / 2)) 0
   \<and> map fst transpositionMap = [90, 45, 0, 315, 270, 225, 180, 135]
   \<and> offsetFromAngle_declaredOrder (45 / 2) = Inr 2
   \<and> getTranspositionFromAngle (45 / 2) = Inr 4
   \<and> getTranspositionFromAngle (45 / 2) \<noteq> offsetFromAngle_declaredOrder (45 / 2)"
  by (simp add: angle_defs offsetFromAngle_declaredOrder_def)

section \<open>Offsets from the modifier keys\<close>

lemma setTransposition_in_range:
  "- 24 \<le> v \<Longrightarrow> v \<le> 24 \<Longrightarrow> setTransposition v s = s\<lparr>transposition := v\<rparr>"
  by (simp add: setTransposition_def clamp_def)

text \<open>
  C4 (amended): the update never throws. The offset it sets is that of the first branch of
  the chain (w+d, s+d, s+a, w+a, w, d, s, a) that the held keys satisfy, which is the
  offset of the directional control at the compass angle of that branch (45, 315, 225, 135,
  90, 0, 270, 180 degrees); holding w and d gives the offset of angle 45. A combination with
  an opposite pair is resolved by the same chain and does not fall back to zero in general
  (a+d gives the offset 4 of angle 0); only the empty combination takes the default 0.
\<close>

theorem updateWASDTransposition_chain:
  "updateWASDTransposition st =
     Inr (st\<lparr>transposition :=
       (if ''w'' \<in> modifierKeys st \<and> ''d'' \<in> modifierKeys st then 2
        else if ''s'' \<in> modifierKeys st \<and> ''d'' \<in> modifierKeys st then 7
        else if ''s'' \<in> modifierKeys st \<and> ''a'' \<in> modifierKeys st then - 3
        else if ''w'' \<in> modifierKeys st \<and> ''a'' \<in> modifierKeys st then 3
        else if ''w'' \<in> modifierKeys st then 0
        else if ''d'' \<in> modifierKeys st then 4
        else if ''s'' \<in> modifierKeys st then 5
        else if ''a'' \<in> modifierKeys st then - 6
        else 0)\<rparr>)
   \<and> map_sum id transposition (updateWASDTransposition st) =
       (if ''w'' \<in> modifierKeys st \<and> ''d'' \<in> modifierKeys st then getTranspositionFromAngle 45
        else if ''s'' \<in> modifierKeys st \<and> ''d'' \<in> modifierKeys st then getTranspositionFromAngle 315
        else if ''s'' \<in> modifierKeys st \<and> ''a'' \<in> modifierKeys st then getTranspositionFromAngle 225
        else if ''w'' \<in> modifierKeys st \<and> ''a'' \<in> modifierKeys st then getTranspositionFromAngle 135
        else if ''w'' \<in> modifierKeys st then getTranspositionFromAngle 90
        else if ''d'' \<in> modifierKeys st then getTranspositionFromAngle 0
        else if ''s'' \<in> modifierKeys st then getTranspositionFromAngle 270
        else if ''a'' \<in> modifierKeys st then getTranspositionFromAngle 180
        else Inr 0)"
  by (simp add: updateWASDTransposition_def getTranspositionFromAngle_compass
      setTransposition_in_range)

theorem updateWASDTransposition_chain_witness:
  "updateWASDTransposition (initialState\<lparr>modifierKeys := {''w'', ''d''}\<rparr>)
     = Inr (initialState\<lparr>modifierKeys := {''w'', ''d''}, transposition := 2\<rparr>)
   \<and> getTranspositionFromAngle 45 = Inr 2"
  using updateWASDTransposition_chain [of "initialState\<lparr>modifierKeys := {''w'', ''d''}\<rparr>"]
  by (simp add: getTranspositionFromAngle_compass)

theorem updateWASDTransposition_opposite_counterexample:
  "''a'' \<in> modifierKeys (initialState\<lparr>modifierKeys := {''a'', ''d''}\<rparr>)
   \<and> ''d'' \<in> modifierKeys (initialState\<lparr>modifierKeys := {''a'', ''d''}\<rparr>)
   \<and> map_sum id transposition
        (updateWASDTransposition (initialState\<lparr>modifierKeys := {''a'', ''d''}\<rparr>)) = Inr 4
   \<and> map_sum id transposition
        (updateWASDTransposition (initialState\<lparr>modifierKeys := {''a'', ''d''}\<rparr>)) \<noteq> Inr 0"
  by (simp add: updateWASDTransposition_def getTranspositionFromAngle_compass
      setTransposition_in_range initialState_def)

text \<open>
  C10: when a change of the modifier-key set leaves none of w, a, s, d held, the watcher
  sets the transposition offset to 0, whatever the offset was before.
\<close>

theorem watchModifierKeys_none_held:
  assumes "modifierKeys st \<noteq> modifierKeys before"
    and "modifierKeys st \<inter> {''w'', ''a'', ''s'', ''d''} = {}"
  shows "watchModifierKeys before st = Inr (st\<lparr>transposition := 0\<rparr>)"
proof -
  from assms(2) have "''w'' \<notin> modifierKeys st" "''a'' \<notin> modifierKeys st"
    "''s'' \<notin> modifierKeys st" "''d'' \<notin> modifierKeys st" by auto
  then have "updateWASDTransposition st = Inr (st\<lparr>transposition := 0\<rparr>)"
    by (simp add: updateWASDTransposition_def setTransposition_in_range)
  with assms(1) show ?thesis by (simp add: watchModifierKeys_def)
qed

theorem watchModifierKeys_none_held_witness:
  "onKeyUp toneTranspose ''w'' (initialState\<lparr>modifierKeys := {''w''}, transposition := 7\<rparr>)
     = Inr (initialState\<lparr>modifierKeys := {}, transposition := 7\<rparr>)
   \<and> modifierKeys (initialState\<lparr>modifierKeys := {}, transposition := 7\<rparr>)
       \<noteq> modifierKeys (initialState\<lparr>modifierKeys := {''w''}, transposition := 7\<rparr>)
   \<and> modifierKeys (initialState\<lparr>modifierKeys := {}, transposition := 7\<rparr>)
       \<inter> {''w'', ''a'', ''s'', ''d''} = {}
   \<and> watchModifierKeys (initialState\<lparr>modifierKeys := {''w''}, transposition := 7\<rparr>)
        (initialState\<lparr>modifierKeys := {}, transposition := 7\<rparr>)
     = Inr (initialState\<lparr>modifierKeys := {}, transposition := 0\<rparr>)"
proof -
  have 1: "modifierKeys (initialState\<lparr>modifierKeys := {}, transposition := 7\<rparr>)
       \<noteq> modifierKeys (initialState\<lparr>modifierKeys := {''w''}, transposition := 7\<rparr>)" by simp
  have 2: "modifierKeys (initialState\<lparr>modifierKeys := {}, transposition := 7\<rparr>)
       \<inter> {''w'', ''a'', ''s'', ''d''} = {}" by simp
  have 3: "onKeyUp toneTranspose ''w'' (initialState\<lparr>modifierKeys := {''w''}, transposition := 7\<rparr>)
     = Inr (initialState\<lparr>modifierKeys := {}, transposition := 7\<rparr>)"
    by (simp add: onKeyUp_def matchChordKey_def matchModifierKey_def initialState_def)
  from watchModifierKeys_none_held [OF 1 2] 1 2 3 show ?thesis by simp
qed

section \<open>The end of a directional gesture\<close>

text \<open>
  C9: on every end-of-gesture event the handler clears the active-gesture flag and resets
  the transposition offset to 0, whatever the state was; nothing else changes.
\<close>

theorem handleJoystickEnd_resets:
  "handleJoystickEnd s = s\<lparr>joystickActive := False, transposition := 0\<rparr>"
  by (simp add: handleJoystickEnd_def setTransposition_def clamp_def)

section \<open>The name of a chord\<close>

lemma getTransposedFrequencies_zero:
  "transposition s = 0 \<Longrightarrow> getTransposedFrequencies tr s key = frequencies (chords key)"
  by (simp add: getTransposedFrequencies_def transposeNote_def)

text \<open>
  C5 (amended): the name is the first candidate when detection on the current (transposed)
  frequencies yields one or more candidates. When it yields none, the base name is the
  first candidate detected on the untransposed base frequencies, or the literal Unknown if
  there is none either; the result is the base name alone when the offset is 0, the base
  name followed by a space, a plus sign and the offset when the offset is positive, and the
  base name followed by a space and the offset with its minus sign when it is negative.
  The suffix is added to the base name Unknown as to any other.
\<close>

theorem getChordName_fallback:
  "getChordName detect tr s key =
    (if detect (getTransposedFrequencies tr s key) \<noteq> []
     then hd (detect (getTransposedFrequencies tr s key))
     else
       let base = (if detect (frequencies (chords key)) \<noteq> []
                   then hd (detect (frequencies (chords key))) else ''Unknown'')
       in if transposition s = 0 then base
          else if transposition s > 0 then base @ '' +'' @ showNat (nat (transposition s))
          else base @ '' -'' @ showNat (nat (- transposition s)))"
  by (simp add: getChordName_def getTransposedFrequencies_zero Let_def numberToString_def)

theorem getChordName_fallback_witness:
  "getChordName (\<lambda>f. if f = [''C3'', ''E3'', ''G3''] then [''CM'', ''Em#5/C''] else [])
      toneTranspose (initialState\<lparr>transposition := - 3\<rparr>) KeyH = ''CM -3''"
  using getChordName_fallback [of "\<lambda>f. if f = [''C3'', ''E3'', ''G3''] then [''CM'', ''Em#5/C''] else []"
      toneTranspose "initialState\<lparr>transposition := - 3\<rparr>" KeyH]
  by (simp add: getTransposedFrequencies_def transposeNote_def toneTranspose_def noteNumber_def
      letterIndex_def parseOctave_def digitValue_def toNote_def scaleIndexToNote_def
      numberToString_def showNat.simps digitChar_def)

theorem getChordName_unknown_counterexample:
  "getChordName (\<lambda>f. []) toneTranspose (initialState\<lparr>transposition := 4\<rparr>) KeyH = ''Unknown +4''
   \<and> getChordName (\<lambda>f. []) toneTranspose (initialState\<lparr>transposition := 4\<rparr>) KeyH \<noteq> ''Unknown''"
  by (simp add: getChordName_def numberToString_def showNat.simps digitChar_def)

section \<open>Offsets from directional gestures\<close>










section \<open>Rules for evaluating the key handlers and the pitch arithmetic\<close>

lemmas tone_defs = toneTranspose_def noteNumber_def letterIndex_def parseOctave_def
  digitValue_def toNote_def scaleIndexToNote_def numberToString_def showNat.simps digitChar_def

lemmas key_defs = run_def onKeyDown_def onKeyUp_def matchChordKey_def matchModifierKey_def
  triggerAttack_def triggerRelease_def getTransposedFrequencies_def transposeNote_def

section \<open>Release before attack on a change of offset\<close>

text \<open>
  C2: when the offset differs from the previous offset while a chord is sounding (its key
  is the last key clicked and is still pressed, and the engine exists), the effect and its
  deferred callback issue exactly two calls, in this order: a release of the chord's
  frequencies at the previous offset, then an attack of its frequencies at the new offset.
  The new offset becomes the previous one.
\<close>

theorem retranspose_release_then_attack:
  assumes "synth s" and "lastKeyClicked s = Some k" and "k \<in> pressedKeys s"
    and "transposition s \<noteq> previousTransposition s"
  shows "calls (retranspose tr s) =
           calls s @
           [TriggerRelease (map (\<lambda>note. transposeNote tr note (previousTransposition s))
                              (frequencies (chords k))),
            TriggerAttack (map (\<lambda>note. transposeNote tr note (transposition s))
                             (frequencies (chords k)))]
         \<and> previousTransposition (retranspose tr s) = transposition s
         \<and> transposition (retranspose tr s) = transposition s"
  using assms
  by (simp add: retranspose_def retransposeEffect_def retransposeDeferred_def
      triggerRelease_def triggerAttack_def getTransposedFrequencies_def)

theorem retranspose_release_then_attack_witness:
  "run toneTranspose [KeyDown ''h''] (initialState\<lparr>synth := True\<rparr>)
     = initialState\<lparr>synth := True, pressedKeys := {KeyH}, lastKeyClicked := Some KeyH,
         calls := [TriggerAttack [''C3'', ''E3'', ''G3'']]\<rparr>
   \<and> calls (retranspose toneTranspose
        (setTransposition 4
          (initialState\<lparr>synth := True, pressedKeys := {KeyH}, lastKeyClicked := Some KeyH,
             calls := [TriggerAttack [''C3'', ''E3'', ''G3'']]\<rparr>)))
     = [TriggerAttack [''C3'', ''E3'', ''G3''],
        TriggerRelease [''C3'', ''E3'', ''G3''],
        TriggerAttack [''E3'', ''G#3'', ''B3'']]"
proof -
  let ?s = "initialState\<lparr>synth := True, pressedKeys := {KeyH}, lastKeyClicked := Some KeyH,
         calls := [TriggerAttack [''C3'', ''E3'', ''G3'']]\<rparr>"
  have r: "run toneTranspose [KeyDown ''h''] (initialState\<lparr>synth := True\<rparr>) = ?s"
    by (simp add: key_defs initialState_def)
  have 1: "synth (setTransposition 4 ?s)" by (simp add: setTransposition_def initialState_def)
  have 2: "lastKeyClicked (setTransposition 4 ?s) = Some KeyH"
    by (simp add: setTransposition_def)
  have 3: "KeyH \<in> pressedKeys (setTransposition 4 ?s)" by (simp add: setTransposition_def)
  have 4: "transposition (setTransposition 4 ?s) \<noteq> previousTransposition (setTransposition 4 ?s)"
    by (simp add: setTransposition_def clamp_def initialState_def)
  from retranspose_release_then_attack [OF 1 2 3 4, of toneTranspose]
  have "calls (retranspose toneTranspose (setTransposition 4 ?s)) =
       [TriggerAttack [''C3'', ''E3'', ''G3''],
        TriggerRelease [''C3'', ''E3'', ''G3''],
        TriggerAttack [''E3'', ''G#3'', ''B3'']]"
    by (simp add: setTransposition_def clamp_def initialState_def transposeNote_def tone_defs)
  with r show ?thesis by simp
qed

section \<open>Round trip of a transposition\<close>

lemma showNat_digit: "n < 10 \<Longrightarrow> showNat n = [digitChar n]"
  by (simp add: showNat.simps)

lemma below_ten:
  "(q::nat) < 10 \<Longrightarrow>
     q = 0 \<or> q = 1 \<or> q = 2 \<or> q = 3 \<or> q = 4 \<or> q = 5 \<or> q = 6 \<or> q = 7 \<or> q = 8 \<or> q = 9"
  by arith

lemma below_twelve:
  "(r::nat) < 12 \<Longrightarrow>
     r = 0 \<or> r = 1 \<or> r = 2 \<or> r = 3 \<or> r = 4 \<or> r = 5 \<or> r = 6 \<or> r = 7 \<or> r = 8 \<or> r = 9
      \<or> r = 10 \<or> r = 11"
  by arith

lemma parseOctave_digit:
  assumes "q < 10"
  shows "parseOctave [digitChar q] = Some (int q)"
  using below_ten [OF assms] by (auto simp add: parseOctave_def digitValue_def digitChar_def)

lemma digitChar_no_accidental:
  assumes "q < 10"
  shows "digitChar q \<noteq> CHR ''#'' \<and> digitChar q \<noteq> CHR ''b''"
  using below_ten [OF assms] by (auto simp add: digitChar_def)

lemma noteNumber_name:
  assumes "r < 12" and "c \<noteq> CHR ''#''" and "c \<noteq> CHR ''b''"
  shows "noteNumber (scaleIndexToNote ! r @ [c])
      = map_option (\<lambda>oct. int r + 12 * oct) (parseOctave [c])"
  using below_twelve [OF assms(1)] assms(2,3)
  by (auto simp add: noteNumber_def scaleIndexToNote_def letterIndex_def split: option.splits)

lemma noteNumber_toNote:
  assumes "0 \<le> m" and "m < 120"
  shows "noteNumber (toNote m) = Some m"
proof -
  define r where "r = nat (m mod 12)"
  define q where "q = nat (m div 12)"
  have r: "r < 12" and q: "q < 10" using assms unfolding r_def q_def by auto
  have m: "m = int r + 12 * int q" using assms unfolding r_def q_def by auto
  have "toNote m = scaleIndexToNote ! r @ [digitChar q]"
    using assms q by (simp add: toNote_def numberToString_def showNat_digit r_def q_def)
  moreover from digitChar_no_accidental [OF q]
  have "noteNumber (scaleIndexToNote ! r @ [digitChar q])
      = map_option (\<lambda>oct. int r + 12 * oct) (parseOctave [digitChar q])"
    by (intro noteNumber_name r) simp_all
  ultimately show ?thesis using m by (simp add: parseOctave_digit q)
qed

lemma base_notes:
  "noteNumber ''C3'' = Some 36 \<and> toNote 36 = ''C3''"
  "noteNumber ''D3'' = Some 38 \<and> toNote 38 = ''D3''"
  "noteNumber ''E3'' = Some 40 \<and> toNote 40 = ''E3''"
  "noteNumber ''F3'' = Some 41 \<and> toNote 41 = ''F3''"
  "noteNumber ''G3'' = Some 43 \<and> toNote 43 = ''G3''"
  "noteNumber ''A3'' = Some 45 \<and> toNote 45 = ''A3''"
  "noteNumber ''B3'' = Some 47 \<and> toNote 47 = ''B3''"
  "noteNumber ''C4'' = Some 48 \<and> toNote 48 = ''C4''"
  "noteNumber ''D4'' = Some 50 \<and> toNote 50 = ''D4''"
  "noteNumber ''E4'' = Some 52 \<and> toNote 52 = ''E4''"
  "noteNumber ''F4'' = Some 53 \<and> toNote 53 = ''F4''"
  by (simp_all add: tone_defs)

lemma base_note_numbers:
  assumes "note \<in> set (frequencies (chords k))"
  shows "\<exists>m. 36 \<le> m \<and> m \<le> 53 \<and> noteNumber note = Some m \<and> toNote m = note"
proof -
  from assms have "note \<in> {''C3'', ''D3'', ''E3'', ''F3'', ''G3'', ''A3'', ''B3'', ''C4'',
      ''D4'', ''E4'', ''F4''}"
    by (cases k) auto
  then show ?thesis
  proof (elim insertE emptyE)
    assume "note = ''C3''" with base_notes(1) show ?thesis by (intro exI [of _ 36]) simp
  next
    assume "note = ''D3''" with base_notes(2) show ?thesis by (intro exI [of _ 38]) simp
  next
    assume "note = ''E3''" with base_notes(3) show ?thesis by (intro exI [of _ 40]) simp
  next
    assume "note = ''F3''" with base_notes(4) show ?thesis by (intro exI [of _ 41]) simp
  next
    assume "note = ''G3''" with base_notes(5) show ?thesis by (intro exI [of _ 43]) simp
  next
    assume "note = ''A3''" with base_notes(6) show ?thesis by (intro exI [of _ 45]) simp
  next
    assume "note = ''B3''" with base_notes(7) show ?thesis by (intro exI [of _ 47]) simp
  next
    assume "note = ''C4''" with base_notes(8) show ?thesis by (intro exI [of _ 48]) simp
  next
    assume "note = ''D4''" with base_notes(9) show ?thesis by (intro exI [of _ 50]) simp
  next
    assume "note = ''E4''" with base_notes(10) show ?thesis by (intro exI [of _ 52]) simp
  next
    assume "note = ''F4''" with base_notes(11) show ?thesis by (intro exI [of _ 53]) simp
  qed
qed

lemma transposeNote_round_trip:
  assumes "noteNumber note = Some m" and "toNote m = note" and "36 \<le> m" and "m \<le> 53"
    and "- 24 \<le> n" and "n \<le> 24"
  shows "transposeNote toneTranspose (transposeNote toneTranspose note n) (- n) = note"
proof (cases "n = 0")
  case True
  then show ?thesis by (simp add: transposeNote_def)
next
  case False
  have "noteNumber (toNote (m + n)) = Some (m + n)"
    using assms by (intro noteNumber_toNote) auto
  with False assms(1,2) show ?thesis by (simp add: transposeNote_def toneTranspose_def)
qed


text \<open>
  C7: for every chord key and every offset from -24 to 24, transposing the transposed
  frequencies of the chord by the opposite offset gives back the base frequencies, with the
  pitch arithmetic of the tone library modelled as exact semitone arithmetic; and at offset
  0 the transposed frequencies are the base pitch names themselves, whatever the library
  does, since the library is not called.
\<close>

theorem transposition_round_trip:
  "(- 24 \<le> n \<and> n \<le> 24 \<longrightarrow>
      map (\<lambda>note. transposeNote toneTranspose note (- n))
        (getTransposedFrequencies toneTranspose (s\<lparr>transposition := n\<rparr>) k)
      = frequencies (chords k))
   \<and> getTransposedFrequencies tr (s\<lparr>transposition := 0\<rparr>) k = frequencies (chords k)"
proof (intro conjI impI)
  assume n: "- 24 \<le> n \<and> n \<le> 24"
  have "transposeNote toneTranspose (transposeNote toneTranspose x n) (- n) = x"
    if "x \<in> set (frequencies (chords k))" for x
  proof -
    from base_note_numbers [OF that] obtain m where
      "36 \<le> m" "m \<le> 53" "noteNumber x = Some m" "toNote m = x" by blast
    with n show ?thesis by (intro transposeNote_round_trip [of x m n]) simp_all
  qed
  then show "map (\<lambda>note. transposeNote toneTranspose note (- n))
        (getTransposedFrequencies toneTranspose (s\<lparr>transposition := n\<rparr>) k)
      = frequencies (chords k)"
    by (simp add: getTransposedFrequencies_def map_idI)
next
  show "getTransposedFrequencies tr (s\<lparr>transposition := 0\<rparr>) k = frequencies (chords k)"
    by (simp add: getTransposedFrequencies_zero)
qed

theorem transposition_round_trip_witness:
  "- 24 \<le> (- 5::int) \<and> (- 5::int) \<le> 24
   \<and> getTransposedFrequencies toneTranspose (initialState\<lparr>transposition := - 5\<rparr>) KeyL
       = [''F#3'', ''A3'', ''C4'']
   \<and> map (\<lambda>note. transposeNote toneTranspose note (- (- 5))) [''F#3'', ''A3'', ''C4'']
       = [''B3'', ''D4'', ''F4'']
   \<and> frequencies (chords KeyL) = [''B3'', ''D4'', ''F4'']"
  using transposition_round_trip [of "- 5" initialState KeyL toneTranspose]
  by (simp add: getTransposedFrequencies_def transposeNote_def tone_defs)

section \<open>The key handlers keep one chord\<close>




















section \<open>Repeated key-down events\<close>

























end
